theory Spec2Isabelle
  imports Main
begin

section \<open>StudyPal: document ingestion and retrieval-augmented querying\<close>

text \<open>
  A shallow embedding of \<^verbatim>\<open>backend/utils.py\<close> and of the class \<^verbatim>\<open>RAGSystem\<close> of
  \<^verbatim>\<open>backend/rag.py\<close>. Python strings are modelled as \<^typ>\<open>string\<close>; a \<^typ>\<open>char\<close>
  stands for a code point below 256, and \<^const>\<open>length\<close> is Python's \<^verbatim>\<open>len\<close>.
\<close>

subsection \<open>Python string helpers\<close>

text \<open>
  \<^verbatim>\<open>str.isspace\<close> on one character: the code points below 256 that Python counts as
  whitespace are 9 to 13, 28 to 32, 133 and 160.
\<close>

definition py_isspace :: "char \<Rightarrow> bool" where
  "py_isspace c =
     (let n = (of_char c :: nat)
      in (9 \<le> n \<and> n \<le> 13) \<or> (28 \<le> n \<and> n \<le> 32) \<or> n = 133 \<or> n = 160)"

text \<open>
  \<^verbatim>\<open>text.split()\<close> without arguments: skip a run of whitespace, take the maximal run of
  other characters as a word, repeat. No word is empty.
\<close>

function py_split :: "string \<Rightarrow> string list" where
  "py_split s =
     (case dropWhile py_isspace s of
        [] \<Rightarrow> []
      | c # cs \<Rightarrow>
          (c # takeWhile (\<lambda>x. \<not> py_isspace x) cs)
            # py_split (dropWhile (\<lambda>x. \<not> py_isspace x) cs))"
  by pat_completeness auto
termination
proof (relation "measure length")
  show "wf (measure length)" by simp
next
  fix s :: string and c cs
  assume d: "dropWhile py_isspace s = c # cs"
  have "length (dropWhile (\<lambda>x. \<not> py_isspace x) cs) \<le> length cs"
    by (rule length_dropWhile_le)
  moreover have "length (c # cs) \<le> length s"
    using length_dropWhile_le [of py_isspace s] d by simp
  ultimately show "(dropWhile (\<lambda>x. \<not> py_isspace x) cs, s) \<in> measure length"
    by simp
qed

declare py_split.simps [simp del]

text \<open>\<^verbatim>\<open>sep.join(words)\<close>.\<close>

fun str_join :: "string \<Rightarrow> string list \<Rightarrow> string" where
  "str_join sep [] = []"
| "str_join sep [w] = w"
| "str_join sep (w # v # ws) = w @ sep @ str_join sep (v # ws)"

text \<open>
  The slice \<^verbatim>\<open>xs[-k:]\<close>. Python turns the start index \<open>-k\<close> into \<open>len(xs) - k\<close>
  when it is negative, and clips it to the range from 0 to \<open>len(xs)\<close>. For \<open>k > 0\<close>
  the slice holds the last \<open>k\<close> elements, or all of them when there are fewer; for
  \<open>k = 0\<close> it is the whole list.
\<close>

definition py_slice_last :: "int \<Rightarrow> 'a list \<Rightarrow> 'a list" where
  "py_slice_last k xs =
     (let n = int (length xs); start = - k
      in drop (nat (if start < 0 then max (n + start) 0 else min start n)) xs)"

subsection \<open>The chunker: \<^verbatim>\<open>split_text\<close> of utils.py\<close>

text \<open>The loop's variables \<^verbatim>\<open>chunks\<close>, \<^verbatim>\<open>current_chunk\<close> and \<^verbatim>\<open>current_length\<close>.\<close>

record splitter =
  chunks :: "string list"
  current_chunk :: "string list"
  current_length :: int

definition splitter_init :: splitter where
  "splitter_init = \<lparr>chunks = [], current_chunk = [], current_length = 0\<rparr>"

text \<open>One iteration of \<^verbatim>\<open>for word in words\<close>.\<close>

definition split_step :: "int \<Rightarrow> int \<Rightarrow> splitter \<Rightarrow> string \<Rightarrow> splitter" where
  "split_step chunk_size chunk_overlap s word =
     (if current_length s + int (length word) + 1 \<le> chunk_size
      then s\<lparr>current_chunk := current_chunk s @ [word],
             current_length := current_length s + (int (length word) + 1)\<rparr>
      else
        (let seeded = py_slice_last chunk_overlap (current_chunk s) @ [word]
         in \<lparr>chunks = chunks s @ [str_join '' '' (current_chunk s)],
             current_chunk = seeded,
             current_length = (\<Sum>w\<leftarrow>seeded. int (length w) + 1)\<rparr>))"

definition split_loop :: "int \<Rightarrow> int \<Rightarrow> splitter \<Rightarrow> string list \<Rightarrow> splitter" where
  "split_loop chunk_size chunk_overlap s ws = foldl (split_step chunk_size chunk_overlap) s ws"

definition split_text :: "string \<Rightarrow> int \<Rightarrow> int \<Rightarrow> string list" where
  "split_text text chunk_size chunk_overlap =
     (let s = split_loop chunk_size chunk_overlap splitter_init (py_split text)
      in if current_chunk s \<noteq> []
         then chunks s @ [str_join '' '' (current_chunk s)]
         else chunks s)"

text \<open>The call \<^verbatim>\<open>split_text(text)\<close> with the default chunk size 1000 and overlap 200.\<close>

definition split_text_default :: "string \<Rightarrow> string list" where
  "split_text_default text = split_text text 1000 200"

subsection \<open>Python values, dictionaries and exceptions\<close>

text \<open>
  The values that occur in metadata records and filters: integers (user id, semester)
  and strings (subject, title). A \<^verbatim>\<open>dict\<close> is an association list in insertion order,
  read with \<^const>\<open>map_of\<close>; \<^verbatim>\<open>d[k]\<close> raises \<^verbatim>\<open>KeyError\<close> when the key is absent.
\<close>

datatype pyval = IntV int | StrV string

type_synonym py_dict = "(string \<times> pyval) list"

datatype py_exception = KeyError string | LibraryError string

definition digit_char :: "nat \<Rightarrow> char" where
  "digit_char d = char_of (48 + d)"

function str_of_nat :: "nat \<Rightarrow> string" where
  "str_of_nat n =
     (if n < 10 then [digit_char n] else str_of_nat (n div 10) @ [digit_char (n mod 10)])"
  by pat_completeness auto
termination
  by (relation "measure id") auto

declare str_of_nat.simps [simp del]

definition str_of_int :: "int \<Rightarrow> string" where
  "str_of_int i = (if i < 0 then ''-'' @ str_of_nat (nat (- i)) else str_of_nat (nat i))"

text \<open>What an f-string field \<^verbatim>\<open>{v}\<close> renders: \<^verbatim>\<open>str(v)\<close>.\<close>

fun py_str :: "pyval \<Rightarrow> string" where
  "py_str (IntV i) = str_of_int i"
| "py_str (StrV s) = s"

definition py_endswith :: "string \<Rightarrow> string \<Rightarrow> bool" where
  "py_endswith s suf = (length suf \<le> length s \<and> drop (length s - length suf) s = suf)"

text \<open>\<^verbatim>\<open>os.path.basename\<close> on a POSIX path: what follows the last slash.\<close>

definition basename :: "string \<Rightarrow> string" where
  "basename p = rev (takeWhile (\<lambda>c. c \<noteq> CHR ''/'') (rev p))"

definition prompt_template :: "string \<Rightarrow> string \<Rightarrow> string" where
  "prompt_template context question =
     ''Use the following pieces of context to answer the question at the end. \<newline>''
     @ ''        If you don't know the answer, just say that you don't know, don't try to make up an answer.\<newline>''
     @ ''        Always provide the source document(s) you used to answer the question.\<newline>\<newline>''
     @ ''        '' @ context @ ''\<newline>\<newline>''
     @ ''        Question: '' @ question @ ''\<newline>''
     @ ''        Answer:''"

subsection \<open>Text extraction: \<^verbatim>\<open>extract_text_from_file\<close> of utils.py\<close>

text \<open>
  The libraries behind the source are parameters: each call either raises or returns.
  \<^verbatim>\<open>pdf_pages\<close> is \<^verbatim>\<open>PdfReader\<close> with the text of every page, \<^verbatim>\<open>docx_paragraphs\<close> is
  \<^verbatim>\<open>DocxDocument\<close> with the text of every paragraph, \<^verbatim>\<open>read_utf8\<close> opens and reads
  a text file, \<^verbatim>\<open>partition_auto\<close> is the fallback of \<^verbatim>\<open>unstructured\<close>.
  \<^verbatim>\<open>add_texts\<close> is the vector store's batch write: it returns the store as the call
  left it, and the exception it raised, if any. \<^verbatim>\<open>search_error\<close> is what similarity
  search raises for a question and filter, \<^verbatim>\<open>distance\<close> ranks the stored chunks
  for a question, \<^verbatim>\<open>generate\<close> is the language model.
\<close>

record stored_chunk =
  chunk_id :: string
  page_content :: string
  metadata :: py_dict

type_synonym chunk_store = "stored_chunk list"

record services =
  pdf_pages :: "string \<Rightarrow> py_exception + string list"
  docx_paragraphs :: "string \<Rightarrow> py_exception + string list"
  read_utf8 :: "string \<Rightarrow> py_exception + string"
  partition_auto :: "string \<Rightarrow> py_exception + string list"
  add_texts :: "string list \<Rightarrow> py_dict list \<Rightarrow> string list \<Rightarrow> chunk_store
                  \<Rightarrow> chunk_store \<times> py_exception option"
  search_error :: "string \<Rightarrow> py_dict \<Rightarrow> py_exception option"
  distance :: "string \<Rightarrow> stored_chunk \<Rightarrow> nat"
  generate :: "string \<Rightarrow> py_exception + string"

definition extract_text_from_file :: "services \<Rightarrow> string \<Rightarrow> py_exception + string" where
  "extract_text_from_file sv file_path =
     (if py_endswith file_path ''.pdf'' then
        (case pdf_pages sv file_path of
           Inl e \<Rightarrow> Inl e
         | Inr pages \<Rightarrow> Inr (str_join ''\<newline>'' pages))
      else if py_endswith file_path ''.docx'' then
        (case docx_paragraphs sv file_path of
           Inl e \<Rightarrow> Inl e
         | Inr paras \<Rightarrow> Inr (str_join ''\<newline>'' paras))
      else if py_endswith file_path ''.txt'' then read_utf8 sv file_path
      else
        (case partition_auto sv file_path of
           Inl e \<Rightarrow> Inl e
         | Inr elements \<Rightarrow> Inr (str_join ''\<newline>'' elements)))"

subsection \<open>Ingestion: \<^verbatim>\<open>RAGSystem.ingest_document\<close> of rag.py\<close>

text \<open>
  The f-string of the chunk identifier. Its fields are evaluated from left to right, so
  the first missing key is the one whose \<^verbatim>\<open>KeyError\<close> is raised.
\<close>

definition doc_id :: "py_dict \<Rightarrow> string \<Rightarrow> nat \<Rightarrow> py_exception + string" where
  "doc_id md file_path i =
     (case map_of md ''user_id'' of
        None \<Rightarrow> Inl (KeyError ''user_id'')
      | Some u \<Rightarrow>
     (case map_of md ''semester'' of
        None \<Rightarrow> Inl (KeyError ''semester'')
      | Some s \<Rightarrow>
     (case map_of md ''subject'' of
        None \<Rightarrow> Inl (KeyError ''subject'')
      | Some t \<Rightarrow>
          Inr (py_str u @ ''_'' @ py_str s @ ''_'' @ py_str t @ ''_''
                 @ basename file_path @ ''_'' @ str_of_nat i))))"

text \<open>The three lists \<^verbatim>\<open>documents\<close>, \<^verbatim>\<open>metadatas\<close> and \<^verbatim>\<open>ids\<close>.\<close>

record batch =
  documents :: "string list"
  metadatas :: "py_dict list"
  ids :: "string list"

definition batch_init :: batch where
  "batch_init = \<lparr>documents = [], metadatas = [], ids = []\<rparr>"

text \<open>
  The loop \<^verbatim>\<open>for i, chunk in enumerate(chunks)\<close>, from index \<open>i\<close> on. With no chunk
  the body never runs and no key is looked up.
\<close>

fun build_batch :: "py_dict \<Rightarrow> string \<Rightarrow> nat \<Rightarrow> string list \<Rightarrow> batch \<Rightarrow> py_exception + batch" where
  "build_batch md file_path i [] b = Inr b"
| "build_batch md file_path i (chunk # rest) b =
     (case doc_id md file_path i of
        Inl e \<Rightarrow> Inl e
      | Inr d \<Rightarrow>
          build_batch md file_path (Suc i) rest
            \<lparr>documents = documents b @ [chunk],
             metadatas = metadatas b @ [md],
             ids = ids b @ [d]\<rparr>)"

text \<open>
  \<^verbatim>\<open>ingest_document\<close> returns its boolean together with the chunk store as the call
  leaves it. Every \<^verbatim>\<open>Inl\<close> and every raised write is the \<^verbatim>\<open>except Exception\<close> branch.
\<close>

definition ingest_document :: "services \<Rightarrow> chunk_store \<Rightarrow> string \<Rightarrow> py_dict \<Rightarrow> bool \<times> chunk_store" where
  "ingest_document sv store file_path md =
     (case extract_text_from_file sv file_path of
        Inl e \<Rightarrow> (False, store)
      | Inr text \<Rightarrow>
     (case build_batch md file_path 0 (split_text_default text) batch_init of
        Inl e \<Rightarrow> (False, store)
      | Inr b \<Rightarrow>
     (case add_texts sv (documents b) (metadatas b) (ids b) store of
        (store', Some e) \<Rightarrow> (False, store')
      | (store', None) \<Rightarrow> (True, store'))))"

subsection \<open>Querying: \<^verbatim>\<open>RAGSystem.query\<close> of rag.py\<close>

text \<open>
  The filter dictionary. \<^verbatim>\<open>if semester:\<close> and \<^verbatim>\<open>if subject:\<close> test truthiness:
  \<^verbatim>\<open>None\<close>, the integer 0 and the empty string are false.
\<close>

definition build_filter :: "int \<Rightarrow> int option \<Rightarrow> string option \<Rightarrow> py_dict" where
  "build_filter user_id semester subject =
     [(''user_id'', IntV user_id)]
     @ (case semester of
          None \<Rightarrow> []
        | Some s \<Rightarrow> if s \<noteq> 0 then [(''semester'', IntV s)] else [])
     @ (case subject of
          None \<Rightarrow> []
        | Some t \<Rightarrow> if t \<noteq> [] then [(''subject'', StrV t)] else [])"

text \<open>
  Modelled from the spec: the vector store's filtered retrieval, which is library code.
  A chunk is eligible when its metadata holds every key of the filter with the same
  value (exact match); the eligible chunks are ranked by their distance to the question
  and the first \<open>k\<close> are returned.
\<close>

definition metadata_matches :: "py_dict \<Rightarrow> py_dict \<Rightarrow> bool" where
  "metadata_matches flt md = list_all (\<lambda>kv. map_of md (fst kv) = Some (snd kv)) flt"

definition similarity_search ::
  "services \<Rightarrow> chunk_store \<Rightarrow> string \<Rightarrow> py_dict \<Rightarrow> nat \<Rightarrow> py_exception + stored_chunk list" where
  "similarity_search sv store question flt k =
     (case search_error sv question flt of
        Some e \<Rightarrow> Inl e
      | None \<Rightarrow>
          Inr (take k (sort_key (distance sv question)
                 (filter (\<lambda>c. metadata_matches flt (metadata c)) store))))"

text \<open>
  Modelled from the spec: the retrieval chain of kind ``stuff'', which is library code.
  It retrieves, puts the texts of the retrieved chunks into the prompt, calls the model
  and returns the model's text with the retrieved chunks as source documents.
\<close>

definition qa_chain ::
  "services \<Rightarrow> chunk_store \<Rightarrow> py_dict \<Rightarrow> nat \<Rightarrow> string \<Rightarrow> py_exception + (string \<times> stored_chunk list)" where
  "qa_chain sv store flt k question =
     (case similarity_search sv store question flt k of
        Inl e \<Rightarrow> Inl e
      | Inr docs \<Rightarrow>
          (case generate sv (prompt_template
                  (str_join ''\<newline>\<newline>'' (map page_content docs)) question) of
             Inl e \<Rightarrow> Inl e
           | Inr result \<Rightarrow> Inr (result, docs)))"

text \<open>The comprehension \<^verbatim>\<open>[doc.metadata["title"] for doc in ...]\<close>.\<close>

fun doc_titles :: "stored_chunk list \<Rightarrow> py_exception + pyval list" where
  "doc_titles [] = Inr []"
| "doc_titles (d # ds) =
     (case map_of (metadata d) ''title'' of
        None \<Rightarrow> Inl (KeyError ''title'')
      | Some t \<Rightarrow>
          (case doc_titles ds of
             Inl e \<Rightarrow> Inl e
           | Inr ts \<Rightarrow> Inr (t # ts)))"

record query_result =
  answer :: string
  sources :: "pyval list"

text \<open>
  \<^verbatim>\<open>list(set(...))\<close> keeps one copy of every title, in an order Python does not
  specify; \<^const>\<open>remdups\<close> stands for it, and nothing below depends on the order.
\<close>

definition query ::
  "services \<Rightarrow> chunk_store \<Rightarrow> string \<Rightarrow> int \<Rightarrow> int option \<Rightarrow> string option \<Rightarrow> query_result" where
  "query sv store question user_id semester subject =
     (case qa_chain sv store (build_filter user_id semester subject) 4 question of
        Inl e \<Rightarrow>
          \<lparr>answer = ''Sorry, I encountered an error processing your request.'', sources = []\<rparr>
      | Inr (result, source_documents) \<Rightarrow>
          (case doc_titles source_documents of
             Inl e \<Rightarrow>
               \<lparr>answer = ''Sorry, I encountered an error processing your request.'',
                sources = []\<rparr>
           | Inr titles \<Rightarrow> \<lparr>answer = result, sources = remdups titles\<rparr>))"

subsection \<open>A concrete store and concrete services\<close>

text \<open>
  Modelled from the spec: the chunk store's batch write as the spec describes it, an
  associative index from chunk identifier to text and metadata in which a later write
  of an identifier replaces the earlier one. It is used for concrete examples only;
  the theorems hold for every behaviour of the write.
\<close>

fun upsert_chunks :: "string list \<Rightarrow> py_dict list \<Rightarrow> string list \<Rightarrow> chunk_store \<Rightarrow> chunk_store" where
  "upsert_chunks (t # ts) (m # ms) (i # is) store =
     upsert_chunks ts ms is
       (filter (\<lambda>c. chunk_id c \<noteq> i) store
          @ [\<lparr>chunk_id = i, page_content = t, metadata = m\<rparr>])"
| "upsert_chunks _ _ _ store = store"

text \<open>
  Example services: two readable text files, a store that accepts every write, a search
  that never fails, and a model that fails on a prompt of more than 312 characters.
\<close>

definition demo_services :: services where
  "demo_services =
     \<lparr>pdf_pages = (\<lambda>p. Inl (LibraryError ''cannot read pdf'')),
      docx_paragraphs = (\<lambda>p. Inl (LibraryError ''cannot read docx'')),
      read_utf8 = (\<lambda>p. if p = ''uploads/1_blank.txt'' then Inr ''  \<newline>''
                        else if p = ''uploads/1_notes.txt'' then Inr ''heat flows''
                        else Inl (LibraryError ''no such file'')),
      partition_auto = (\<lambda>p. Inl (LibraryError ''cannot partition'')),
      add_texts = (\<lambda>ts ms is store. (upsert_chunks ts ms is store, None)),
      search_error = (\<lambda>q flt. None),
      distance = (\<lambda>q c. length (page_content c)),
      generate = (\<lambda>prompt. if length prompt \<le> 312 then Inr ''Heat flows.''
                            else Inl (LibraryError ''model unavailable''))\<rparr>"

definition demo_metadata :: "int \<Rightarrow> py_dict" where
  "demo_metadata uid =
     [(''user_id'', IntV uid), (''semester'', IntV 2), (''subject'', StrV ''Physics''),
      (''title'', StrV ''notes.txt'')]"

text \<open>A store with one chunk of user 1 and one chunk of user 2.\<close>

definition demo_store :: chunk_store where
  "demo_store =
     [\<lparr>chunk_id = ''1_2_Physics_1_notes.txt_0'', page_content = ''heat flows'',
       metadata = demo_metadata 1\<rparr>,
      \<lparr>chunk_id = ''2_2_Physics_2_notes.txt_0'', page_content = ''cold'',
       metadata = [(''user_id'', IntV 2), (''semester'', IntV 2),
                   (''subject'', StrV ''Physics''), (''title'', StrV ''secret.txt'')]\<rparr>]"

text \<open>
  The same services with a store whose write persists the first chunk of the batch and
  then raises.
\<close>

definition flaky_services :: services where
  "flaky_services =
     demo_services\<lparr>add_texts :=
       (\<lambda>ts ms is store.
          (upsert_chunks (take 1 ts) (take 1 ms) (take 1 is) store,
           Some (LibraryError ''connection lost'')))\<rparr>"

text \<open>
  The same services with a store that validates its input as the vector database does:
  a write of no identifier at all is refused with an exception, any other write is
  accepted.
\<close>

definition strict_services :: services where
  "strict_services =
     demo_services\<lparr>add_texts :=
       (\<lambda>ts ms is store.
          if is = [] then (store, Some (LibraryError ''Expected IDs to be a non-empty list''))
          else (upsert_chunks ts ms is store, None))\<rparr>"

subsection \<open>Auxiliary notions for the proofs\<close>

text \<open>A word as \<^verbatim>\<open>split\<close> produces it: not empty, and free of whitespace.\<close>

definition clean_word :: "string \<Rightarrow> bool" where
  "clean_word w = (w \<noteq> [] \<and> list_all (\<lambda>c. \<not> py_isspace c) w)"

text \<open>
  How a chunk \<open>c\<close> relates to its predecessor \<open>p\<close>: its words are the overlap seed taken
  from \<open>p\<close>, the word that closed \<open>p\<close>, and the words accumulated afterwards; \<open>c\<close> is the
  join of its words; when a word was accumulated, \<open>c\<close> is within the budget.
\<close>

definition chunk_follows :: "int \<Rightarrow> int \<Rightarrow> string \<Rightarrow> string \<Rightarrow> bool" where
  "chunk_follows n k p c =
     (\<exists>w rest. py_split c = py_slice_last k (py_split p) @ w # rest
        \<and> c = str_join '' '' (py_split c)
        \<and> (rest \<noteq> [] \<longrightarrow> int (length c) \<le> n))"

text \<open>The invariant of the loop of \<^verbatim>\<open>split_text\<close>.\<close>

definition splitter_inv :: "int \<Rightarrow> int \<Rightarrow> splitter \<Rightarrow> bool" where
  "splitter_inv n k s =
     (current_length s = (\<Sum>w\<leftarrow>current_chunk s. int (length w) + 1)
      \<and> list_all clean_word (current_chunk s)
      \<and> (chunks s = [] \<longrightarrow> current_length s \<le> max n 0)
      \<and> (chunks s \<noteq> [] \<longrightarrow>
            int (length (hd (chunks s))) \<le> max n 0
            \<and> (\<exists>w rest. current_chunk s = py_slice_last k (py_split (last (chunks s))) @ w # rest
                  \<and> (rest \<noteq> [] \<longrightarrow> current_length s \<le> n)))
      \<and> successively (chunk_follows n k) (chunks s))"

section \<open>Supporting lemmas\<close>

subsection \<open>Facts about splitting and joining\<close>

lemma py_split_Nil:
  assumes "dropWhile py_isspace s = []"
  shows "py_split s = []"
  by (subst py_split.simps) (simp only: assms list.case)

lemma py_split_Cons:
  "dropWhile py_isspace s = c # cs \<Longrightarrow>
   py_split s = (c # takeWhile (\<lambda>x. \<not> py_isspace x) cs)
                  # py_split (dropWhile (\<lambda>x. \<not> py_isspace x) cs)"
  by (simp add: py_split.simps [of s])

lemma py_split_empty [simp]: "py_split [] = []"
  by (simp add: py_split_Nil)

lemma py_split_skip: "py_isspace c \<Longrightarrow> py_split (c # s) = py_split s"
  by (simp add: py_split.simps [of "c # s"] py_split.simps [of s])

lemma py_split_eq_Nil_iff: "py_split s = [] \<longleftrightarrow> list_all py_isspace s"
proof (cases "dropWhile py_isspace s")
  case Nil
  then show ?thesis by (simp add: py_split_Nil list_all_iff)
next
  case (Cons c cs)
  then have "\<not> list_all py_isspace s"
    by (metis dropWhile_eq_Nil_conv list.distinct(1) list_all_iff)
  with Cons show ?thesis by (simp add: py_split_Cons)
qed

lemma py_split_clean: "list_all clean_word (py_split s)"
proof (induction s rule: py_split.induct)
  case (1 s)
  show ?case
  proof (cases "dropWhile py_isspace s")
    case Nil
    then show ?thesis by (simp add: py_split_Nil)
  next
    case (Cons c cs)
    have "\<not> py_isspace c"
      using hd_dropWhile [of py_isspace s] Cons by simp
    moreover have "list_all (\<lambda>c. \<not> py_isspace c) (takeWhile (\<lambda>x. \<not> py_isspace x) cs)"
      by (auto simp: list_all_iff dest: set_takeWhileD)
    ultimately have "clean_word (c # takeWhile (\<lambda>x. \<not> py_isspace x) cs)"
      by (simp add: clean_word_def)
    with 1 [OF Cons] Cons show ?thesis
      by (simp add: py_split_Cons)
  qed
qed

lemma space_is_space: "py_isspace CHR '' ''"
  by (simp add: py_isspace_def)

lemma py_split_word_then:
  assumes "clean_word w" and "rest = [] \<or> py_isspace (hd rest)"
  shows "py_split (w @ rest) = w # py_split rest"
proof -
  from assms(1) obtain c cs where w: "w = c # cs" and c: "\<not> py_isspace c"
    and cs: "\<forall>x\<in>set cs. \<not> py_isspace x"
    by (cases w) (auto simp: clean_word_def list_all_iff)
  have d: "dropWhile py_isspace (w @ rest) = c # (cs @ rest)"
    using w c by simp
  have t: "takeWhile (\<lambda>x. \<not> py_isspace x) (cs @ rest) = cs"
    using cs assms(2) by (cases rest) (auto simp: takeWhile_append)
  have r: "dropWhile (\<lambda>x. \<not> py_isspace x) (cs @ rest) = rest"
    using cs assms(2) by (cases rest) (auto simp: dropWhile_append)
  show ?thesis
    using py_split_Cons [OF d] t r w by simp
qed

lemma py_split_single: "clean_word w \<Longrightarrow> py_split w = [w]"
  using py_split_word_then [of w "[]"] by simp

lemma py_split_join: "list_all clean_word ws \<Longrightarrow> py_split (str_join '' '' ws) = ws"
proof (induction "'' ''" ws rule: str_join.induct)
  case 1
  then show ?case by simp
next
  case (2 w)
  then show ?case by (simp add: py_split_single)
next
  case (3 w v ws)
  have "py_split (w @ CHR '' '' # str_join '' '' (v # ws)) = w # py_split (CHR '' '' # str_join '' '' (v # ws))"
    using 3 by (intro py_split_word_then) (simp_all add: space_is_space)
  with 3 show ?case
    by (simp add: py_split_skip space_is_space)
qed

lemma dropWhile_space_shorter:
  assumes "r \<noteq> []" and "py_isspace (hd r)"
  shows "length (dropWhile py_isspace r) < length r"
proof -
  from assms obtain x xs where r: "r = x # xs" and x: "py_isspace x"
    by (cases r) auto
  have "length (dropWhile py_isspace xs) \<le> length xs"
    by (rule length_dropWhile_le)
  then show ?thesis
    using r x by simp
qed

lemma py_split_sum_aux:
  "(\<Sum>w\<leftarrow>py_split s. int (length w) + 1) \<le> int (length (dropWhile py_isspace s)) + 1"
proof (induction s rule: py_split.induct)
  case (1 s)
  show ?case
  proof (cases "dropWhile py_isspace s")
    case Nil
    then have "py_split s = []" by (rule py_split_Nil)
    then show ?thesis by simp
  next
    case (Cons c cs)
    define t where "t = takeWhile (\<lambda>x. \<not> py_isspace x) cs"
    define r where "r = dropWhile (\<lambda>x. \<not> py_isspace x) cs"
    have len: "length t + length r = length cs"
      unfolding t_def r_def by (metis length_append takeWhile_dropWhile_id)
    have ih: "(\<Sum>w\<leftarrow>py_split r. int (length w) + 1) \<le> int (length (dropWhile py_isspace r)) + 1"
      unfolding r_def by (rule 1 [OF Cons])
    have rest: "(\<Sum>w\<leftarrow>py_split r. int (length w) + 1) \<le> int (length r)"
    proof (cases "r = []")
      case True
      then show ?thesis by simp
    next
      case False
      then have "py_isspace (hd r)"
        using hd_dropWhile [of "\<lambda>x. \<not> py_isspace x" cs] by (simp add: r_def)
      from dropWhile_space_shorter [OF False this] ih show ?thesis
        by linarith
    qed
    have split: "py_split s = (c # t) # py_split r"
      unfolding t_def r_def by (rule py_split_Cons [OF Cons])
    have "(\<Sum>w\<leftarrow>py_split s. int (length w) + 1) = int (length t) + 2 + (\<Sum>w\<leftarrow>py_split r. int (length w) + 1)"
      by (simp only: split) simp
    also have "\<dots> \<le> int (length t) + 2 + int (length r)"
      using rest by linarith
    also have "\<dots> = int (length (c # cs)) + 1"
      using len by simp
    finally show ?thesis
      by (simp only: Cons)
  qed
qed

lemma py_split_sum_le:
  "(\<Sum>w\<leftarrow>py_split s. int (length w) + 1) \<le> int (length s) + 1"
proof -
  have "int (length (dropWhile py_isspace s)) \<le> int (length s)"
    using length_dropWhile_le [of py_isspace s] by linarith
  with py_split_sum_aux [of s] show ?thesis
    by linarith
qed

subsection \<open>Facts about the chunker's loop\<close>

lemma str_join_length:
  "int (length (str_join '' '' ws)) \<le> (\<Sum>w\<leftarrow>ws. int (length w) + 1)"
  by (induction "'' ''" ws rule: str_join.induct) simp_all

lemma py_slice_last_subset: "set (py_slice_last k xs) \<subseteq> set xs"
  by (simp add: py_slice_last_def Let_def set_drop_subset)

lemma py_slice_last_pos:
  "0 < k \<Longrightarrow> py_slice_last k xs = drop (length xs - nat k) xs"
  by (simp add: py_slice_last_def Let_def max_def nat_diff_distrib') 

lemma split_loop_Nil [simp]: "split_loop n k s [] = s"
  by (simp add: split_loop_def)

lemma split_loop_Cons [simp]:
  "split_loop n k s (w # ws) = split_loop n k (split_step n k s w) ws"
  by (simp add: split_loop_def)

lemma split_loop_invariant:
  assumes "I s" and "\<And>s w. I s \<Longrightarrow> w \<in> set ws \<Longrightarrow> I (split_step n k s w)"
  shows "I (split_loop n k s ws)"
  using assms by (induction ws arbitrary: s) simp_all

lemma sum_word_lengths_nonneg: "0 \<le> (\<Sum>w\<leftarrow>ws. int (length w) + 1)"
  by (induction ws) simp_all

lemma split_loop_fits:
  "current_length s + (\<Sum>w\<leftarrow>ws. int (length w) + 1) \<le> n \<Longrightarrow>
   split_loop n k s ws =
     s\<lparr>current_chunk := current_chunk s @ ws,
       current_length := current_length s + (\<Sum>w\<leftarrow>ws. int (length w) + 1)\<rparr>"
proof (induction ws arbitrary: s)
  case Nil
  then show ?case by simp
next
  case (Cons w ws)
  have nn: "0 \<le> (\<Sum>w\<leftarrow>ws. int (length w) + 1)"
    by (rule sum_word_lengths_nonneg)
  with Cons.prems have fit: "current_length s + int (length w) + 1 \<le> n"
    by simp
  then have step: "split_step n k s w =
      s\<lparr>current_chunk := current_chunk s @ [w],
        current_length := current_length s + (int (length w) + 1)\<rparr>"
    by (simp add: split_step_def)
  have "current_length (split_step n k s w) + (\<Sum>w\<leftarrow>ws. int (length w) + 1) \<le> n"
    using Cons.prems by (simp add: step)
  from Cons.IH [OF this] show ?case
    by (simp add: step add.assoc)
qed

lemma split_step_chunks_prefix: "\<exists>ext. chunks (split_step n k s w) = chunks s @ ext"
  by (simp add: split_step_def Let_def)

lemma split_loop_chunks_prefix: "\<exists>ext. chunks (split_loop n k s ws) = chunks s @ ext"
proof (induction ws arbitrary: s)
  case Nil
  then show ?case by simp
next
  case (Cons w ws)
  obtain e1 where e1: "chunks (split_step n k s w) = chunks s @ e1"
    using split_step_chunks_prefix by blast
  obtain e2 where "chunks (split_loop n k (split_step n k s w) ws) = chunks (split_step n k s w) @ e2"
    using Cons.IH by blast
  with e1 show ?case by simp
qed

lemma clean_word_replicate: "0 < n \<Longrightarrow> \<not> py_isspace c \<Longrightarrow> clean_word (replicate n c)"
  by (simp add: clean_word_def list_all_iff)

lemma letter_a_not_space: "\<not> py_isspace CHR ''a''"
  by (simp add: py_isspace_def)

lemma splitter_inv_init: "splitter_inv n k splitter_init"
  by (simp add: splitter_inv_def splitter_init_def)

lemma splitter_inv_close:
  assumes "splitter_inv n k s"
  shows "successively (chunk_follows n k) (chunks s @ [str_join '' '' (current_chunk s)])"
    and "int (length (hd (chunks s @ [str_join '' '' (current_chunk s)]))) \<le> max n 0"
    and "py_split (str_join '' '' (current_chunk s)) = current_chunk s"
proof -
  let ?c = "str_join '' '' (current_chunk s)"
  from assms have len: "current_length s = (\<Sum>w\<leftarrow>current_chunk s. int (length w) + 1)"
    and clean: "list_all clean_word (current_chunk s)"
    and succ: "successively (chunk_follows n k) (chunks s)"
    by (simp_all add: splitter_inv_def)
  show rt: "py_split ?c = current_chunk s"
    using clean by (rule py_split_join)
  have cl: "int (length ?c) \<le> current_length s"
    using str_join_length [of "current_chunk s"] len by simp
  show "int (length (hd (chunks s @ [?c]))) \<le> max n 0"
  proof (cases "chunks s = []")
    case True
    with assms have "current_length s \<le> max n 0" by (simp add: splitter_inv_def)
    with cl True show ?thesis by simp
  next
    case False
    with assms show ?thesis by (simp add: splitter_inv_def)
  qed
  show "successively (chunk_follows n k) (chunks s @ [?c])"
  proof (cases "chunks s = []")
    case True
    then show ?thesis by simp
  next
    case False
    with assms obtain w rest where
      cur: "current_chunk s = py_slice_last k (py_split (last (chunks s))) @ w # rest"
      and fit: "rest \<noteq> [] \<longrightarrow> current_length s \<le> n"
      unfolding splitter_inv_def by blast
    have "chunk_follows n k (last (chunks s)) ?c"
      unfolding chunk_follows_def
    proof (intro exI conjI)
      show "py_split ?c = py_slice_last k (py_split (last (chunks s))) @ w # rest"
        using rt cur by simp
      show "?c = str_join '' '' (py_split ?c)"
        using rt by simp
      show "rest \<noteq> [] \<longrightarrow> int (length ?c) \<le> n"
        using fit cl by auto
    qed
    with succ False show ?thesis
      by (simp add: successively_append_iff)
  qed
qed

lemma splitter_inv_step:
  assumes inv: "splitter_inv n k s" and w: "clean_word w"
  shows "splitter_inv n k (split_step n k s w)"
proof (cases "current_length s + int (length w) + 1 \<le> n")
  case True
  then have step: "split_step n k s w =
      s\<lparr>current_chunk := current_chunk s @ [w],
        current_length := current_length s + (int (length w) + 1)\<rparr>"
    by (simp add: split_step_def)
  have seeded: "\<exists>v rest. current_chunk s @ [w] = py_slice_last k (py_split (last (chunks s))) @ v # rest
        \<and> (rest \<noteq> [] \<longrightarrow> current_length s + (int (length w) + 1) \<le> n)"
    if "chunks s \<noteq> []"
  proof -
    from inv that obtain v rest where
      "current_chunk s = py_slice_last k (py_split (last (chunks s))) @ v # rest"
      unfolding splitter_inv_def by blast
    then have "current_chunk s @ [w] = py_slice_last k (py_split (last (chunks s))) @ v # (rest @ [w])"
      by simp
    with True show ?thesis by (metis add.assoc)
  qed
  from inv have len: "current_length s = (\<Sum>w\<leftarrow>current_chunk s. int (length w) + 1)"
    and clean: "list_all clean_word (current_chunk s)"
    and hd: "chunks s \<noteq> [] \<longrightarrow> int (length (hd (chunks s))) \<le> max n 0"
    and succ: "successively (chunk_follows n k) (chunks s)"
    by (simp_all add: splitter_inv_def)
  have fit: "current_length s + (int (length w) + 1) \<le> max n 0"
    using True by linarith
  show ?thesis
    unfolding step splitter_inv_def
    using len clean hd succ fit w seeded by simp
next
  case False
  let ?c = "str_join '' '' (current_chunk s)"
  let ?seeded = "py_slice_last k (current_chunk s) @ [w]"
  from False have step: "split_step n k s w =
      \<lparr>chunks = chunks s @ [?c], current_chunk = ?seeded,
       current_length = (\<Sum>w\<leftarrow>?seeded. int (length w) + 1)\<rparr>"
    by (simp add: split_step_def Let_def)
  from inv have clean: "list_all clean_word (current_chunk s)"
    by (simp add: splitter_inv_def)
  have "list_all clean_word (py_slice_last k (current_chunk s))"
    using clean py_slice_last_subset [of k "current_chunk s"] by (auto simp: list_all_iff)
  with w have c2: "list_all clean_word ?seeded" by simp
  note close = splitter_inv_close [OF inv]
  have "?seeded = py_slice_last k (py_split (last (chunks s @ [?c]))) @ w # []"
    using close(3) by simp
  then have c4: "\<exists>v rest. ?seeded = py_slice_last k (py_split (last (chunks s @ [?c]))) @ v # rest
      \<and> (rest \<noteq> [] \<longrightarrow> (\<Sum>w\<leftarrow>?seeded. int (length w) + 1) \<le> n)"
    by blast
  show ?thesis
    unfolding step splitter_inv_def using c2 c4 close(1,2) by simp
qed

lemma splitter_inv_loop:
  "splitter_inv n k (split_loop n k splitter_init (py_split text))"
proof (rule split_loop_invariant)
  show "splitter_inv n k splitter_init" by (rule splitter_inv_init)
next
  fix s w
  assume inv: "splitter_inv n k s" and mem: "w \<in> set (py_split text)"
  from mem have "clean_word w"
    using py_split_clean [of "text"] by (simp add: list_all_iff)
  with inv show "splitter_inv n k (split_step n k s w)"
    by (rule splitter_inv_step)
qed

lemma split_text_structure:
  "successively (chunk_follows n k) (split_text text n k)"
  "split_text text n k \<noteq> [] \<Longrightarrow> int (length (hd (split_text text n k))) \<le> max n 0"
proof -
  let ?s = "split_loop n k splitter_init (py_split text)"
  have inv: "splitter_inv n k ?s" by (rule splitter_inv_loop)
  note close = splitter_inv_close [OF inv]
  show "successively (chunk_follows n k) (split_text text n k)"
    using close(1) inv by (simp add: split_text_def Let_def splitter_inv_def)
  show "int (length (hd (split_text text n k))) \<le> max n 0" if "split_text text n k \<noteq> []"
    using close(2) inv that by (simp add: split_text_def Let_def splitter_inv_def split: if_splits)
qed

lemma successively_nth:
  "successively P xs \<Longrightarrow> Suc i < length xs \<Longrightarrow> P (xs ! i) (xs ! Suc i)"
proof (induction P xs arbitrary: i rule: successively.induct)
  case (3 P x y xs)
  then show ?case by (cases i) simp_all
qed simp_all

lemma py_slice_last_length:
  "0 < k \<Longrightarrow> length (py_slice_last k xs) = min (nat k) (length xs)"
  by (simp add: py_slice_last_pos)

lemma two_long_words_split:
  "split_text (replicate 600 CHR ''a'' @ '' '' @ replicate 600 CHR ''b'') 1000 200
     = [replicate 600 CHR ''a'', replicate 600 CHR ''a'' @ '' '' @ replicate 600 CHR ''b'']"
proof -
  have b: "\<not> py_isspace CHR ''b''" by (simp add: py_isspace_def)
  have "list_all clean_word [replicate 600 CHR ''a'', replicate 600 CHR ''b'']"
    by (simp add: clean_word_replicate letter_a_not_space b)
  from py_split_join [OF this]
  have "py_split (replicate 600 CHR ''a'' @ '' '' @ replicate 600 CHR ''b'')
      = [replicate 600 CHR ''a'', replicate 600 CHR ''b'']"
    by simp
  then show ?thesis
    by (simp add: split_text_def split_step_def splitter_init_def py_slice_last_def Let_def)
qed

lemma one_oversize_word_split:
  "split_text (replicate 1001 CHR ''a'') 1000 200 = [[], replicate 1001 CHR ''a'']"
proof -
  have "py_split (replicate 1001 CHR ''a'') = [replicate 1001 CHR ''a'']"
    by (simp add: py_split_single clean_word_replicate letter_a_not_space)
  then show ?thesis
    by (simp add: split_text_def split_step_def splitter_init_def py_slice_last_def Let_def)
qed

lemma str_join_length_exact:
  "ws \<noteq> [] \<Longrightarrow> int (length (str_join '' '' ws)) = (\<Sum>w\<leftarrow>ws. int (length w) + 1) - 1"
  by (induction "'' ''" ws rule: str_join.induct) simp_all

lemma sum_word_lengths_replicate:
  "(\<Sum>w\<leftarrow>replicate n v. int (length w) + 1) = int n * (int (length v) + 1)"
  by (induction n) (simp_all add: algebra_simps)

lemma split_loop_snoc:
  "split_loop n k s (ws @ [w]) = split_step n k (split_loop n k s ws) w"
  by (simp add: split_loop_def)

lemma four_letter_words_split:
  "split_text_default (str_join '' '' (replicate 201 ''abcd''))
     = [str_join '' '' (replicate 200 ''abcd''), str_join '' '' (replicate 201 ''abcd'')]"
proof -
  let ?w = "''abcd''"
  have cw: "clean_word ?w" by code_simp
  then have "list_all clean_word (replicate 201 ?w)"
    by (simp add: list_all_iff)
  then have "py_split (str_join '' '' (replicate 201 ?w)) = replicate 201 ?w"
    by (rule py_split_join)
  moreover have "(201 :: nat) = Suc 200" by simp
  then have "replicate 201 ?w = replicate 200 ?w @ [?w]"
    by (simp only: replicate_Suc replicate_append_same)
  ultimately have sp: "py_split (str_join '' '' (replicate 201 ?w)) = replicate 200 ?w @ [?w]"
    by simp
  have "current_length splitter_init + (\<Sum>w\<leftarrow>replicate 200 ?w. int (length w) + 1) \<le> 1000"
    by (simp add: sum_word_lengths_replicate sum_list_replicate splitter_init_def)
  from split_loop_fits [OF this, of 200]
  have first: "split_loop 1000 200 splitter_init (replicate 200 ?w)
      = \<lparr>chunks = [], current_chunk = replicate 200 ?w, current_length = 1000\<rparr>"
    by (simp add: sum_word_lengths_replicate sum_list_replicate splitter_init_def)
  have "split_loop 1000 200 splitter_init (replicate 200 ?w @ [?w])
      = \<lparr>chunks = [str_join '' '' (replicate 200 ?w)],
         current_chunk = replicate 200 ?w @ [?w],
         current_length = 1005\<rparr>"
    by (simp only: split_loop_snoc first)
       (simp add: split_step_def py_slice_last_def sum_word_lengths_replicate sum_list_replicate)
  moreover have "replicate 200 ?w @ [?w] = replicate 201 ?w"
    using \<open>replicate 201 ?w = replicate 200 ?w @ [?w]\<close> by simp
  ultimately show ?thesis
    by (simp add: split_text_default_def split_text_def sp)
qed

subsection \<open>Facts about decimal rendering\<close>

lemma digit_char_code: "d < 10 \<Longrightarrow> (of_char (digit_char d) :: nat) = 48 + d"
  by (simp add: digit_char_def)

lemma digit_char_inj:
  assumes a: "a < 10" and b: "b < 10" and eq: "digit_char a = digit_char b"
  shows "a = b"
proof -
  have "48 + a = (of_char (digit_char a) :: nat)"
    using digit_char_code [OF a] by (rule sym)
  also have "\<dots> = of_char (digit_char b)"
    by (simp only: eq)
  also have "\<dots> = 48 + b"
    by (rule digit_char_code [OF b])
  finally show ?thesis by simp
qed

lemma digit_char_not_underscore:
  assumes d: "d < 10"
  shows "digit_char d \<noteq> CHR ''_''"
proof
  assume "digit_char d = CHR ''_''"
  then have "(of_char (digit_char d) :: nat) = 95" by simp
  then have "48 + d = 95" by (simp only: digit_char_code [OF d])
  with d show False by simp
qed

lemma digit_char_not_minus:
  assumes d: "d < 10"
  shows "digit_char d \<noteq> CHR ''-''"
proof
  assume "digit_char d = CHR ''-''"
  then have "(of_char (digit_char d) :: nat) = 45" by simp
  then have "48 + d = 45" by (simp only: digit_char_code [OF d])
  then show False by simp
qed

lemma str_of_nat_small: "n < 10 \<Longrightarrow> str_of_nat n = [digit_char n]"
  by (simp add: str_of_nat.simps [of n])

lemma str_of_nat_big:
  "\<not> n < 10 \<Longrightarrow> str_of_nat n = str_of_nat (n div 10) @ [digit_char (n mod 10)]"
  by (simp add: str_of_nat.simps [of n])

lemma str_of_nat_not_Nil: "str_of_nat n \<noteq> []"
  by (cases "n < 10") (simp_all add: str_of_nat_small str_of_nat_big)

lemma str_of_nat_digits: "c \<in> set (str_of_nat n) \<Longrightarrow> \<exists>d<10. c = digit_char d"
proof (induction n rule: str_of_nat.induct)
  case (1 n)
  show ?case
  proof (cases "n < 10")
    case True
    with 1 show ?thesis by (auto simp: str_of_nat_small)
  next
    case False
    from 1(2) have "c \<in> set (str_of_nat (n div 10)) \<or> c = digit_char (n mod 10)"
      by (auto simp: str_of_nat_big [OF False])
    then show ?thesis
    proof
      assume "c \<in> set (str_of_nat (n div 10))"
      with 1(1) [OF False] show ?thesis by blast
    next
      assume "c = digit_char (n mod 10)"
      moreover have "n mod 10 < 10" by simp
      ultimately show ?thesis by blast
    qed
  qed
qed

lemma underscore_not_in_str_of_nat: "CHR ''_'' \<notin> set (str_of_nat n)"
proof
  assume "CHR ''_'' \<in> set (str_of_nat n)"
  then obtain d where "d < 10" and "CHR ''_'' = digit_char d"
    using str_of_nat_digits by blast
  then show False
    using digit_char_not_underscore [of d] by simp
qed

lemma minus_not_in_str_of_nat: "CHR ''-'' \<notin> set (str_of_nat n)"
proof
  assume "CHR ''-'' \<in> set (str_of_nat n)"
  then obtain d where "d < 10" and "CHR ''-'' = digit_char d"
    using str_of_nat_digits by blast
  then show False
    using digit_char_not_minus [of d] by simp
qed

lemma str_of_nat_inj: "str_of_nat n = str_of_nat m \<Longrightarrow> n = m"
proof (induction n arbitrary: m rule: str_of_nat.induct)
  case (1 n)
  show ?case
  proof (cases "n < 10")
    case n: True
    show ?thesis
    proof (cases "m < 10")
      case True
      with n 1(2) show ?thesis
        by (simp add: str_of_nat_small digit_char_inj)
    next
      case False
      from 1(2) have "[digit_char n] = str_of_nat (m div 10) @ [digit_char (m mod 10)]"
        by (simp add: str_of_nat_small [OF n] str_of_nat_big [OF False])
      then have "str_of_nat (m div 10) = []" by simp
      then show ?thesis using str_of_nat_not_Nil by blast
    qed
  next
    case n: False
    show ?thesis
    proof (cases "m < 10")
      case True
      from 1(2) have "str_of_nat (n div 10) @ [digit_char (n mod 10)] = [digit_char m]"
        by (simp add: str_of_nat_small [OF True] str_of_nat_big [OF n])
      then have "str_of_nat (n div 10) = []" by simp
      then show ?thesis using str_of_nat_not_Nil by blast
    next
      case False
      from 1(2) have eq: "str_of_nat (n div 10) @ [digit_char (n mod 10)]
          = str_of_nat (m div 10) @ [digit_char (m mod 10)]"
        by (simp add: str_of_nat_big [OF False] str_of_nat_big [OF n])
      then have "str_of_nat (n div 10) = str_of_nat (m div 10)"
        and d: "digit_char (n mod 10) = digit_char (m mod 10)"
        by simp_all
      with 1(1) [OF n] have q: "n div 10 = m div 10" by blast
      have "n mod 10 = m mod 10"
        using d by (intro digit_char_inj) simp_all
      have "n = n div 10 * 10 + n mod 10" by simp
      also have "\<dots> = m div 10 * 10 + m mod 10" by (simp only: q \<open>n mod 10 = m mod 10\<close>)
      also have "\<dots> = m" by simp
      finally show ?thesis .
    qed
  qed
qed

lemma str_of_int_inj: "str_of_int a = str_of_int b \<Longrightarrow> a = b"
proof -
  assume eq: "str_of_int a = str_of_int b"
  have neg: False if "x < 0" and "\<not> y < 0" and "str_of_int x = str_of_int y" for x y
  proof -
    from that have "CHR ''-'' # str_of_nat (nat (- x)) = str_of_nat (nat y)"
      by (simp add: str_of_int_def)
    then have "set (CHR ''-'' # str_of_nat (nat (- x))) = set (str_of_nat (nat y))"
      by (rule arg_cong)
    then have "CHR ''-'' \<in> set (str_of_nat (nat y))"
      by auto
    then show False using minus_not_in_str_of_nat by blast
  qed
  show "a = b"
  proof (cases "a < 0")
    case a: True
    show ?thesis
    proof (cases "b < 0")
      case True
      with a eq have "str_of_nat (nat (- a)) = str_of_nat (nat (- b))"
        by (simp add: str_of_int_def)
      then have "nat (- a) = nat (- b)" by (rule str_of_nat_inj)
      with a True show ?thesis by simp
    next
      case False
      from neg [OF a False eq] show ?thesis ..
    qed
  next
    case a: False
    show ?thesis
    proof (cases "b < 0")
      case True
      from neg [OF True a eq [symmetric]] show ?thesis ..
    next
      case False
      with a eq have "str_of_nat (nat a) = str_of_nat (nat b)"
        by (simp add: str_of_int_def)
      then have "nat a = nat b" by (rule str_of_nat_inj)
      with a False show ?thesis by simp
    qed
  qed
qed

subsection \<open>Facts about retrieval\<close>

lemma build_filter_user_id:
  "metadata_matches (build_filter user_id semester subject) md \<Longrightarrow>
   map_of md ''user_id'' = Some (IntV user_id)"
  by (simp add: metadata_matches_def build_filter_def)

lemma similarity_search_sound:
  assumes "similarity_search sv store question flt k = Inr docs" and "d \<in> set docs"
  shows "d \<in> set store \<and> metadata_matches flt (metadata d)"
proof (cases "search_error sv question flt")
  case (Some e)
  with assms(1) show ?thesis
    by (simp add: similarity_search_def)
next
  case None
  define eligible where
    "eligible = filter (\<lambda>c. metadata_matches flt (metadata c)) store"
  from assms(1) None have "take k (sort_key (distance sv question) eligible) = docs"
    by (simp add: similarity_search_def eligible_def)
  with assms(2) have "d \<in> set (take k (sort_key (distance sv question) eligible))"
    by simp
  then have "d \<in> set (sort_key (distance sv question) eligible)"
    by (rule in_set_takeD)
  then have "d \<in> set eligible"
    by simp
  then show ?thesis
    by (simp add: eligible_def)
qed

lemma qa_chain_docs:
  "qa_chain sv store flt k question = Inr (result, docs) \<Longrightarrow>
   similarity_search sv store question flt k = Inr docs"
  by (simp add: qa_chain_def split: sum.splits)

lemma doc_titles_mem:
  "doc_titles ds = Inr ts \<Longrightarrow> t \<in> set ts \<Longrightarrow>
   \<exists>d\<in>set ds. map_of (metadata d) ''title'' = Some t"
proof (induction ds arbitrary: ts)
  case Nil
  then show ?case by simp
next
  case (Cons d ds)
  from Cons.prems(1) obtain t0 ts0 where
    t0: "map_of (metadata d) ''title'' = Some t0"
    and ts0: "doc_titles ds = Inr ts0" and ts: "ts = t0 # ts0"
    by (auto split: option.splits sum.splits)
  show ?case
  proof (cases "t = t0")
    case True
    with t0 show ?thesis by simp
  next
    case False
    with Cons.prems(2) ts have "t \<in> set ts0" by simp
    from Cons.IH [OF ts0 this] show ?thesis by auto
  qed
qed

lemma query_sources_from_docs:
  assumes "t \<in> set (sources (query sv store question user_id semester subject))"
  shows "\<exists>docs d. similarity_search sv store question
            (build_filter user_id semester subject) 4 = Inr docs
          \<and> d \<in> set docs \<and> map_of (metadata d) ''title'' = Some t"
proof (cases "qa_chain sv store (build_filter user_id semester subject) 4 question")
  case (Inl e)
  with assms show ?thesis by (simp add: query_def)
next
  case (Inr rd)
  obtain result docs where rd: "rd = (result, docs)" by (cases rd)
  show ?thesis
  proof (cases "doc_titles docs")
    case (Inl e)
    with assms Inr rd show ?thesis by (simp add: query_def)
  next
    case titles: (Inr ts)
    with assms Inr rd have "t \<in> set ts" by (simp add: query_def)
    from doc_titles_mem [OF titles this] obtain d where
      "d \<in> set docs" and "map_of (metadata d) ''title'' = Some t" by blast
    moreover have "similarity_search sv store question
        (build_filter user_id semester subject) 4 = Inr docs"
      using Inr rd by (simp add: qa_chain_docs)
    ultimately show ?thesis by blast
  qed
qed

subsection \<open>Facts about chunk identifiers\<close>

lemma doc_id_ok:
  assumes "map_of md ''user_id'' = Some u" and "map_of md ''semester'' = Some s"
    and "map_of md ''subject'' = Some t"
  shows "doc_id md file_path i =
    Inr (py_str u @ ''_'' @ py_str s @ ''_'' @ py_str t @ ''_''
           @ basename file_path @ ''_'' @ str_of_nat i)"
  using assms by (simp add: doc_id_def)

lemma build_batch_ok:
  assumes "\<And>j. doc_id md file_path j = Inr (f j)"
  shows "build_batch md file_path i cs b =
    Inr \<lparr>documents = documents b @ cs,
         metadatas = metadatas b @ replicate (length cs) md,
         ids = ids b @ map f [i..<i + length cs]\<rparr>"
proof (induction cs arbitrary: i b)
  case Nil
  then show ?case by simp
next
  case (Cons c cs)
  have "[i..<i + length (c # cs)] = i # [Suc i..<Suc i + length cs]"
    by (subst upt_rec) simp
  then show ?case
    by (simp add: assms Cons.IH replicate_app_Cons_same)
qed

lemma first_separator_unique:
  "x \<notin> set xs \<Longrightarrow> x \<notin> set xs' \<Longrightarrow> xs @ x # ys = xs' @ x # ys' \<Longrightarrow>
   xs = xs' \<and> ys = ys'"
proof (induction xs arbitrary: xs')
  case Nil
  then show ?case by (cases xs') auto
next
  case (Cons a xs)
  show ?case
  proof (cases xs')
    case Nil
    with Cons.prems show ?thesis by auto
  next
    case (Cons b zs)
    with Cons.prems have "x \<notin> set xs" and "x \<notin> set zs"
      and "xs @ x # ys = zs @ x # ys'" and "a = b"
      by auto
    with Cons.IH [of zs] Cons show ?thesis by simp
  qed
qed

lemma last_field_unique:
  assumes "X @ CHR ''_'' # str_of_nat i = X' @ CHR ''_'' # str_of_nat j"
  shows "X = X' \<and> i = j"
proof -
  from assms have "rev (X @ CHR ''_'' # str_of_nat i) = rev (X' @ CHR ''_'' # str_of_nat j)"
    by (rule arg_cong)
  then have r: "rev (str_of_nat i) @ CHR ''_'' # rev X = rev (str_of_nat j) @ CHR ''_'' # rev X'"
    by simp
  have ni: "CHR ''_'' \<notin> set (rev (str_of_nat i))" and nj: "CHR ''_'' \<notin> set (rev (str_of_nat j))"
    using underscore_not_in_str_of_nat by simp_all
  from r have "rev (str_of_nat i) = rev (str_of_nat j) \<and> rev X = rev X'"
    by (rule first_separator_unique [OF ni nj])
  then have "str_of_nat i = str_of_nat j" and "X = X'"
    by simp_all
  then show ?thesis
    using str_of_nat_inj by blast
qed

lemma ids_distinct: "distinct (map (\<lambda>i. X @ ''_'' @ str_of_nat i) [a..<b])"
proof -
  have "inj_on (\<lambda>i. X @ ''_'' @ str_of_nat i) (set [a..<b])"
  proof (rule inj_onI)
    fix i j
    assume "X @ ''_'' @ str_of_nat i = X @ ''_'' @ str_of_nat j"
    then have "X @ CHR ''_'' # str_of_nat i = X @ CHR ''_'' # str_of_nat j" by simp
    then show "i = j" using last_field_unique by blast
  qed
  then show ?thesis
    by (simp add: distinct_map)
qed

lemma ids_of_other_owner_differ:
  assumes "v \<noteq> v'"
  shows "str_of_int v @ ''_'' @ R @ ''_'' @ str_of_nat i
           \<noteq> str_of_int v' @ ''_'' @ R @ ''_'' @ str_of_nat j"
proof
  assume "str_of_int v @ ''_'' @ R @ ''_'' @ str_of_nat i
      = str_of_int v' @ ''_'' @ R @ ''_'' @ str_of_nat j"
  then have "(str_of_int v @ CHR ''_'' # R) @ CHR ''_'' # str_of_nat i
      = (str_of_int v' @ CHR ''_'' # R) @ CHR ''_'' # str_of_nat j"
    by simp
  then have "str_of_int v @ CHR ''_'' # R = str_of_int v' @ CHR ''_'' # R"
    using last_field_unique by blast
  then have "str_of_int v = str_of_int v'"
    by simp
  then have "v = v'" by (rule str_of_int_inj)
  with assms show False by simp
qed

lemma split_text_blank:
  assumes "list_all py_isspace text"
  shows "split_text_default text = []"
proof -
  from assms have "py_split text = []"
    by (simp add: py_split_eq_Nil_iff)
  then show ?thesis
    by (simp add: split_text_default_def split_text_def splitter_init_def)
qed

subsection \<open>Facts about the concrete services\<close>

lemma demo_search:
  "similarity_search demo_services demo_store question (build_filter 1 None None) 4
     = Inr [\<lparr>chunk_id = ''1_2_Physics_1_notes.txt_0'', page_content = ''heat flows'',
             metadata = demo_metadata 1\<rparr>]"
  by (simp add: similarity_search_def demo_services_def demo_store_def build_filter_def
      metadata_matches_def demo_metadata_def)

lemma demo_doc_id:
  "doc_id (demo_metadata 1) ''uploads/1_notes.txt'' 0 = Inr ''1_2_Physics_1_notes.txt_0''"
  "doc_id (demo_metadata 1) ''uploads/1_notes.txt'' (Suc 0) = Inr ''1_2_Physics_1_notes.txt_1''"
  by code_simp+

lemma demo_split: "split_text_default ''heat flows'' = [''heat flows'']"
  by code_simp

lemma demo_blank: "list_all py_isspace ''  \<newline>''"
  by code_simp


section \<open>Properties of the chunker\<close>

text \<open>
  C9. If the first whitespace token of the text is at least as long as the chunk-size
  budget, the test \<^verbatim>\<open>current_length + len(word) + 1 <= chunk_size\<close> fails on an empty
  \<^verbatim>\<open>current_chunk\<close>, so \<^verbatim>\<open>split_text\<close> appends the join of no words: its first chunk
  is the empty string. Chunks are therefore not always non-empty.
\<close>

theorem first_token_oversize_gives_empty_chunk:
  assumes "py_split text = w # ws" and "chunk_size \<le> int (length w)"
  shows "\<exists>rest. split_text text chunk_size chunk_overlap = [] # rest"
proof -
  let ?s1 = "split_step chunk_size chunk_overlap splitter_init w"
  let ?s = "split_loop chunk_size chunk_overlap splitter_init (py_split text)"
  have "chunks ?s1 = [[]]"
    using assms(2) by (simp add: split_step_def splitter_init_def Let_def)
  moreover obtain ext where "chunks (split_loop chunk_size chunk_overlap ?s1 ws) = chunks ?s1 @ ext"
    using split_loop_chunks_prefix by blast
  ultimately have "chunks ?s = [] # ext"
    using assms(1) by simp
  then show ?thesis
    by (simp add: split_text_def Let_def)
qed

theorem first_token_oversize_witness:
  "py_split (replicate 1000 CHR ''a'') = replicate 1000 CHR ''a'' # []
   \<and> (1000 :: int) \<le> int (length (replicate 1000 CHR ''a''))
   \<and> (\<exists>rest. split_text_default (replicate 1000 CHR ''a'') = [] # rest)"
proof -
  have sp: "py_split (replicate 1000 CHR ''a'') = replicate 1000 CHR ''a'' # []"
    by (simp add: py_split_single clean_word_replicate letter_a_not_space)
  have le: "(1000 :: int) \<le> int (length (replicate 1000 CHR ''a''))"
    by simp
  from first_token_oversize_gives_empty_chunk [OF sp le, of 200] sp le show ?thesis
    by (simp only: split_text_default_def)
qed

text \<open>
  C4, as amended. A text shorter than the chunk-size budget never takes the closing
  branch of the loop. When it holds at least one character that is not whitespace,
  \<^verbatim>\<open>split_text\<close> returns exactly one chunk, the words of the text joined by single
  spaces; when it is empty or all whitespace, the guard \<^verbatim>\<open>if current_chunk\<close> fails and
  the result is the empty list.
\<close>

theorem short_text_single_chunk:
  "int (length text) < chunk_size \<Longrightarrow>
   split_text text chunk_size chunk_overlap =
     (if list_all py_isspace text then [] else [str_join '' '' (py_split text)])"
proof -
  assume short: "int (length text) < chunk_size"
  have "(\<Sum>w\<leftarrow>py_split text. int (length w) + 1) \<le> chunk_size"
    using py_split_sum_le [of "text"] short by linarith
  then have "current_length splitter_init + (\<Sum>w\<leftarrow>py_split text. int (length w) + 1) \<le> chunk_size"
    by (simp add: splitter_init_def)
  from split_loop_fits [OF this, of chunk_overlap]
  have "split_text text chunk_size chunk_overlap =
      (if py_split text \<noteq> [] then [str_join '' '' (py_split text)] else [])"
    by (simp add: split_text_def Let_def splitter_init_def)
  then show ?thesis
    by (simp add: py_split_eq_Nil_iff)
qed

theorem short_text_single_chunk_witness:
  "int (length ''ab  cd'') < 1000 \<and> split_text_default ''ab  cd'' = [''ab cd'']"
proof -
  have short: "int (length ''ab  cd'') < 1000" by simp
  have sp: "py_split ''ab  cd'' = [''ab'', ''cd'']" by code_simp
  have ns: "\<not> list_all py_isspace ''ab  cd''" by code_simp
  from short_text_single_chunk [OF short, of 200] short sp ns show ?thesis
    by (simp add: split_text_default_def)
qed

text \<open>
  The claim C4 as it is written fails on a text of two spaces: it is shorter than the
  budget, and \<^verbatim>\<open>split_text\<close> returns no chunk at all.
\<close>

theorem blank_text_counterexample:
  "int (length ''  '') < 1000 \<and> length (split_text_default ''  '') \<noteq> 1"
proof -
  have "py_split ''  '' = []" by code_simp
  then show ?thesis
    by (simp add: split_text_default_def split_text_def splitter_init_def)
qed

text \<open>
  C2. With a positive overlap (the default is 200), every chunk after the first begins
  with the last \<^verbatim>\<open>chunk_overlap\<close> words of its predecessor, and with all of the
  predecessor's words when it holds fewer; at least one further word follows. The words
  of a chunk are what \<^verbatim>\<open>split\<close> returns on it. Nothing here can raise.
\<close>

theorem chunk_begins_with_overlap:
  assumes "0 < chunk_overlap" and "0 < i"
    and "i < length (split_text text chunk_size chunk_overlap)"
  shows "let cs = split_text text chunk_size chunk_overlap;
             prev = py_split (cs ! (i - 1));
             cur = py_split (cs ! i)
         in take (min (nat chunk_overlap) (length prev)) cur
              = drop (length prev - nat chunk_overlap) prev
            \<and> min (nat chunk_overlap) (length prev) < length cur"
proof -
  let ?cs = "split_text text chunk_size chunk_overlap"
  from assms(2) obtain j where i: "i = Suc j" by (cases i) auto
  have "chunk_follows chunk_size chunk_overlap (?cs ! j) (?cs ! Suc j)"
    using split_text_structure(1) assms(3) unfolding i by (rule successively_nth)
  then obtain w rest where
    cur: "py_split (?cs ! Suc j) = py_slice_last chunk_overlap (py_split (?cs ! j)) @ w # rest"
    unfolding chunk_follows_def by blast
  have seed: "py_slice_last chunk_overlap (py_split (?cs ! j))
      = drop (length (py_split (?cs ! j)) - nat chunk_overlap) (py_split (?cs ! j))"
    using assms(1) by (rule py_slice_last_pos)
  have len: "length (py_slice_last chunk_overlap (py_split (?cs ! j)))
      = min (nat chunk_overlap) (length (py_split (?cs ! j)))"
    using assms(1) by (rule py_slice_last_length)
  have "take (min (nat chunk_overlap) (length (py_split (?cs ! j)))) (py_split (?cs ! Suc j))
      = py_slice_last chunk_overlap (py_split (?cs ! j))"
    unfolding cur using len by simp
  moreover have "min (nat chunk_overlap) (length (py_split (?cs ! j))) < length (py_split (?cs ! Suc j))"
    unfolding cur using len by simp
  ultimately show ?thesis
    unfolding i Let_def using seed by simp
qed

theorem chunk_begins_with_overlap_witness:
  "(0 :: int) < 200 \<and> (0 :: nat) < 1
   \<and> 1 < length (split_text_default (replicate 600 CHR ''a'' @ '' '' @ replicate 600 CHR ''b''))
   \<and> py_split (split_text_default (replicate 600 CHR ''a'' @ '' '' @ replicate 600 CHR ''b'') ! 0)
        = [replicate 600 CHR ''a'']
   \<and> take 1 (py_split (split_text_default (replicate 600 CHR ''a'' @ '' '' @ replicate 600 CHR ''b'') ! 1))
        = [replicate 600 CHR ''a'']"
proof -
  let ?t = "replicate 600 CHR ''a'' @ '' '' @ replicate 600 CHR ''b''"
  have h1: "(0 :: int) < 200" by simp
  have h2: "(0 :: nat) < 1" by simp
  have h3: "1 < length (split_text ?t 1000 200)"
    by (simp only: two_long_words_split) simp
  have p: "py_split (split_text ?t 1000 200 ! 0) = [replicate 600 CHR ''a'']"
    by (simp only: two_long_words_split) (simp add: py_split_single clean_word_replicate letter_a_not_space)
  from chunk_begins_with_overlap [OF h1 h2 h3] p h3 show ?thesis
    by (simp add: Let_def split_text_default_def)
qed

text \<open>
  C3, as amended. For a budget that is not negative, a chunk of \<^verbatim>\<open>split_text\<close> is
  within the budget unless it received no word by accumulation: the first chunk is always
  within the budget, and a later chunk can exceed it only when its words are exactly the
  overlap seed (the last \<^verbatim>\<open>chunk_overlap\<close> words of its predecessor, as the slice
  \<^verbatim>\<open>current_chunk[-chunk_overlap:]\<close> gives them) followed by one single word, the word
  that closed the predecessor. The words of a chunk are what \<^verbatim>\<open>split\<close> returns on it, so
  that one word is not empty and holds no whitespace. The seeded chunk is never tested
  against the budget; every chunk that holds a further word has passed the test.
\<close>

theorem chunk_within_budget_or_seeded:
  assumes "0 \<le> chunk_size" and "i < length (split_text text chunk_size chunk_overlap)"
  shows "let cs = split_text text chunk_size chunk_overlap
         in int (length (cs ! i)) \<le> chunk_size
            \<or> (0 < i
               \<and> (\<exists>w. w \<noteq> [] \<and> list_all (\<lambda>c. \<not> py_isspace c) w
                     \<and> py_split (cs ! i)
                         = py_slice_last chunk_overlap (py_split (cs ! (i - 1))) @ [w]
                     \<and> cs ! i = str_join '' '' (py_split (cs ! i))))"
proof (cases i)
  case 0
  let ?cs = "split_text text chunk_size chunk_overlap"
  from assms(2) have ne: "?cs \<noteq> []" by auto
  from split_text_structure(2) [OF ne] assms(1) have "int (length (hd ?cs)) \<le> chunk_size"
    by simp
  with ne 0 show ?thesis
    by (simp add: Let_def hd_conv_nth)
next
  case (Suc j)
  let ?cs = "split_text text chunk_size chunk_overlap"
  have "chunk_follows chunk_size chunk_overlap (?cs ! j) (?cs ! Suc j)"
    using split_text_structure(1) assms(2) unfolding Suc by (rule successively_nth)
  then obtain w rest where
    cur: "py_split (?cs ! Suc j) = py_slice_last chunk_overlap (py_split (?cs ! j)) @ w # rest"
    and joined: "?cs ! Suc j = str_join '' '' (py_split (?cs ! Suc j))"
    and fit: "rest \<noteq> [] \<longrightarrow> int (length (?cs ! Suc j)) \<le> chunk_size"
    unfolding chunk_follows_def by blast
  have "w \<in> set (py_split (?cs ! Suc j))"
    unfolding cur by simp
  then have "clean_word w"
    using py_split_clean [of "?cs ! Suc j"] by (simp add: list_all_iff)
  then have w: "w \<noteq> []" "list_all (\<lambda>c. \<not> py_isspace c) w"
    by (simp_all add: clean_word_def)
  show ?thesis
  proof (cases "rest = []")
    case True
    with cur have "py_split (?cs ! Suc j)
        = py_slice_last chunk_overlap (py_split (?cs ! j)) @ [w]"
      by simp
    with w joined show ?thesis
      unfolding Suc Let_def by auto
  next
    case False
    with fit show ?thesis
      unfolding Suc Let_def by simp
  qed
qed

theorem chunk_within_budget_or_seeded_witness:
  "(0 :: int) \<le> 1000
   \<and> 1 < length (split_text_default (replicate 1001 CHR ''a''))
   \<and> \<not> int (length (split_text_default (replicate 1001 CHR ''a'') ! 1)) \<le> 1000
   \<and> (\<exists>w. w \<noteq> [] \<and> list_all (\<lambda>c. \<not> py_isspace c) w
         \<and> py_split (split_text_default (replicate 1001 CHR ''a'') ! 1)
             = py_slice_last 200
                 (py_split (split_text_default (replicate 1001 CHR ''a'') ! 0)) @ [w]
         \<and> split_text_default (replicate 1001 CHR ''a'') ! 1
             = str_join '' '' (py_split (split_text_default (replicate 1001 CHR ''a'') ! 1)))"
proof -
  have h1: "(0 :: int) \<le> 1000" by simp
  have h2: "1 < length (split_text (replicate 1001 CHR ''a'') 1000 200)"
    by (simp only: one_oversize_word_split) simp
  have over: "\<not> int (length (split_text (replicate 1001 CHR ''a'') 1000 200 ! 1)) \<le> 1000"
    by (simp only: one_oversize_word_split) simp
  from chunk_within_budget_or_seeded [OF h1 h2] over
  have "\<exists>w. w \<noteq> [] \<and> list_all (\<lambda>c. \<not> py_isspace c) w
         \<and> py_split (split_text (replicate 1001 CHR ''a'') 1000 200 ! 1)
             = py_slice_last 200
                 (py_split (split_text (replicate 1001 CHR ''a'') 1000 200 ! (1 - 1))) @ [w]
         \<and> split_text (replicate 1001 CHR ''a'') 1000 200 ! 1
             = str_join '' '' (py_split (split_text (replicate 1001 CHR ''a'') 1000 200 ! 1))"
    unfolding Let_def by blast
  with h1 h2 over show ?thesis
    unfolding split_text_default_def by simp
qed

text \<open>
  The bound is not empty after the first chunk: a chunk that holds more words than the
  seed and one word lies within the budget.
\<close>

lemma longer_chunk_within_budget:
  assumes "0 \<le> chunk_size" and "0 < i"
    and "i < length (split_text text chunk_size chunk_overlap)"
    and "length (py_slice_last chunk_overlap
            (py_split (split_text text chunk_size chunk_overlap ! (i - 1)))) + 1
          < length (py_split (split_text text chunk_size chunk_overlap ! i))"
  shows "int (length (split_text text chunk_size chunk_overlap ! i)) \<le> chunk_size"
proof -
  let ?cs = "split_text text chunk_size chunk_overlap"
  from assms(2) obtain j where i: "i = Suc j" by (cases i) auto
  have "chunk_follows chunk_size chunk_overlap (?cs ! j) (?cs ! Suc j)"
    using split_text_structure(1) assms(3) unfolding i by (rule successively_nth)
  then obtain w rest where
    cur: "py_split (?cs ! Suc j) = py_slice_last chunk_overlap (py_split (?cs ! j)) @ w # rest"
    and fit: "rest \<noteq> [] \<longrightarrow> int (length (?cs ! Suc j)) \<le> chunk_size"
    unfolding chunk_follows_def by blast
  from assms(4) have "rest \<noteq> []"
    unfolding i cur by auto
  with fit show ?thesis
    unfolding i by simp
qed

text \<open>
  The claim C3 as it is written fails on a text that is one word of 1001 characters:
  the empty first chunk is closed, the word seeds the next chunk, and that chunk is
  returned with its 1001 characters.
\<close>

theorem oversize_word_counterexample:
  "length (split_text_default (replicate 1001 CHR ''a'')) = 2
   \<and> \<not> int (length (split_text_default (replicate 1001 CHR ''a'') ! 1)) \<le> 1000"
  by (simp add: split_text_default_def one_oversize_word_split)

text \<open>
  Ordinary words do the same. Of 201 words of four letters, 200 fill the budget exactly;
  the last one closes the first chunk of 999 characters, and the next chunk is seeded
  with all 200 words plus the new one: 1004 characters.
\<close>

lemma seeded_chunk_over_budget:
  "int (length (split_text_default (str_join '' '' (replicate 201 ''abcd'')) ! 0)) = 999
   \<and> int (length (split_text_default (str_join '' '' (replicate 201 ''abcd'')) ! 1)) = 1004"
  by (simp add: four_letter_words_split str_join_length_exact sum_word_lengths_replicate sum_list_replicate)

section \<open>Properties of ingestion\<close>

text \<open>
  C6. When the metadata holds the three keys, the loop of \<^verbatim>\<open>ingest_document\<close> gives the
  chunk of index \<open>i\<close> the identifier made of the user id, the semester, the subject, the
  basename of the path and \<open>i\<close>, joined by underscores. The identifiers of one call are
  pairwise distinct. A second call with another (integer) user id and the same semester,
  subject and basename shares no identifier with the first.
\<close>

theorem chunk_identifiers:
  assumes "map_of md ''user_id'' = Some u" and "map_of md ''semester'' = Some s"
    and "map_of md ''subject'' = Some t"
  shows "\<exists>b. build_batch md file_path 0 cs batch_init = Inr b
     \<and> documents b = cs
     \<and> length (ids b) = length cs
     \<and> (\<forall>i<length cs. ids b ! i =
           py_str u @ ''_'' @ py_str s @ ''_'' @ py_str t @ ''_''
             @ basename file_path @ ''_'' @ str_of_nat i)
     \<and> distinct (ids b)
     \<and> (\<forall>md' file_path' cs' b' v v'.
           u = IntV v \<and> map_of md' ''user_id'' = Some (IntV v') \<and> v \<noteq> v'
           \<and> map_of md' ''semester'' = Some s \<and> map_of md' ''subject'' = Some t
           \<and> basename file_path' = basename file_path
           \<and> build_batch md' file_path' 0 cs' batch_init = Inr b'
           \<longrightarrow> set (ids b) \<inter> set (ids b') = {})"
proof -
  define R where "R = py_str s @ ''_'' @ py_str t @ ''_'' @ basename file_path"
  define f where "f = (\<lambda>i. (py_str u @ ''_'' @ R) @ ''_'' @ str_of_nat i)"
  define b where "b = \<lparr>documents = cs, metadatas = replicate (length cs) md,
    ids = map f [0..<length cs]\<rparr>"
  have id: "doc_id md file_path j = Inr (f j)" for j
    using doc_id_ok [OF assms] by (simp add: f_def R_def)
  have built: "build_batch md file_path 0 cs batch_init = Inr b"
    using build_batch_ok [of md file_path f 0 cs batch_init, OF id]
    by (simp add: b_def batch_init_def)
  have nth: "ids b ! i = py_str u @ ''_'' @ py_str s @ ''_'' @ py_str t @ ''_''
      @ basename file_path @ ''_'' @ str_of_nat i" if "i < length cs" for i
    using that by (simp add: b_def f_def R_def)
  have dist: "distinct (ids b)"
    using ids_distinct [of "py_str u @ ''_'' @ R" 0 "length cs"] by (simp add: b_def f_def)
  have other: "set (ids b) \<inter> set (ids b') = {}"
    if u: "u = IntV v" and u': "map_of md' ''user_id'' = Some (IntV v')" and ne: "v \<noteq> v'"
      and s': "map_of md' ''semester'' = Some s" and t': "map_of md' ''subject'' = Some t"
      and base: "basename file_path' = basename file_path"
      and built': "build_batch md' file_path' 0 cs' batch_init = Inr b'"
    for md' file_path' cs' b' v v'
  proof -
    define f' where "f' = (\<lambda>i. (str_of_int v' @ ''_'' @ R) @ ''_'' @ str_of_nat i)"
    have "doc_id md' file_path' j = Inr (f' j)" for j
      using doc_id_ok [OF u' s' t'] by (simp add: f'_def R_def base)
    from build_batch_ok [of md' file_path' f' 0 cs' batch_init, OF this] built'
    have ids': "ids b' = map f' [0..<length cs']"
      by (auto simp: batch_init_def)
    have "f i \<noteq> f' j" for i j
      using ids_of_other_owner_differ [OF ne, of R i j] by (simp add: f_def f'_def u)
    then show ?thesis
      by (auto simp: ids' b_def)
  qed
  have "documents b = cs" and "length (ids b) = length cs"
    by (simp_all add: b_def)
  with built nth dist other show ?thesis
    by blast
qed

theorem chunk_identifiers_witness:
  "map_of (demo_metadata 1) ''user_id'' = Some (IntV 1)
   \<and> map_of (demo_metadata 1) ''semester'' = Some (IntV 2)
   \<and> map_of (demo_metadata 1) ''subject'' = Some (StrV ''Physics'')
   \<and> build_batch (demo_metadata 1) ''uploads/1_notes.txt'' 0 [''heat'', ''flows''] batch_init
       = Inr \<lparr>documents = [''heat'', ''flows''],
              metadatas = [demo_metadata 1, demo_metadata 1],
              ids = [''1_2_Physics_1_notes.txt_0'', ''1_2_Physics_1_notes.txt_1'']\<rparr>
   \<and> distinct [''1_2_Physics_1_notes.txt_0'', ''1_2_Physics_1_notes.txt_1'']"
proof -
  have k1: "map_of (demo_metadata 1) ''user_id'' = Some (IntV 1)"
    and k2: "map_of (demo_metadata 1) ''semester'' = Some (IntV 2)"
    and k3: "map_of (demo_metadata 1) ''subject'' = Some (StrV ''Physics'')"
    by (simp_all add: demo_metadata_def)
  have built: "build_batch (demo_metadata 1) ''uploads/1_notes.txt'' 0 [''heat'', ''flows''] batch_init
       = Inr \<lparr>documents = [''heat'', ''flows''],
              metadatas = [demo_metadata 1, demo_metadata 1],
              ids = [''1_2_Physics_1_notes.txt_0'', ''1_2_Physics_1_notes.txt_1'']\<rparr>"
    by (simp add: demo_doc_id batch_init_def)
  from chunk_identifiers [OF k1 k2 k3, of "''uploads/1_notes.txt''" "[''heat'', ''flows'']"]
  obtain b where "build_batch (demo_metadata 1) ''uploads/1_notes.txt'' 0 [''heat'', ''flows''] batch_init = Inr b"
    and "distinct (ids b)"
    by blast
  with built have "distinct [''1_2_Physics_1_notes.txt_0'', ''1_2_Physics_1_notes.txt_1'']"
    by auto
  with k1 k2 k3 built show ?thesis by blast
qed

text \<open>
  C7. \<^verbatim>\<open>ingest_document\<close> always returns a boolean. It is \<^verbatim>\<open>True\<close> exactly when
  extraction returns a text, the batch is built from its chunks (chunking itself cannot
  raise) and the one batch write raises nothing. When extraction or the building of the
  batch raises, the result is \<^verbatim>\<open>False\<close> and the store is untouched. When the write
  is reached, the store afterwards is the store as the write left it, whether the write
  raised or not: nothing is rolled back.
\<close>

theorem ingest_document_result:
  "fst (ingest_document sv store file_path md)
     = (\<exists>text b. extract_text_from_file sv file_path = Inr text
          \<and> build_batch md file_path 0 (split_text_default text) batch_init = Inr b
          \<and> snd (add_texts sv (documents b) (metadatas b) (ids b) store) = None)
   \<and> (\<forall>e. extract_text_from_file sv file_path = Inl e \<longrightarrow>
         ingest_document sv store file_path md = (False, store))
   \<and> (\<forall>text e. extract_text_from_file sv file_path = Inr text
          \<and> build_batch md file_path 0 (split_text_default text) batch_init = Inl e \<longrightarrow>
         ingest_document sv store file_path md = (False, store))
   \<and> (\<forall>text b. extract_text_from_file sv file_path = Inr text
          \<and> build_batch md file_path 0 (split_text_default text) batch_init = Inr b \<longrightarrow>
         ingest_document sv store file_path md
           = (snd (add_texts sv (documents b) (metadatas b) (ids b) store) = None,
              fst (add_texts sv (documents b) (metadatas b) (ids b) store)))"
proof (cases "extract_text_from_file sv file_path")
  case (Inl e)
  then show ?thesis by (simp add: ingest_document_def)
next
  case extracted: (Inr content)
  show ?thesis
  proof (cases "build_batch md file_path 0 (split_text_default content) batch_init")
    case (Inl e)
    with extracted show ?thesis by (simp add: ingest_document_def)
  next
    case (Inr b)
    obtain store' r where w: "add_texts sv (documents b) (metadatas b) (ids b) store = (store', r)"
      by (cases "add_texts sv (documents b) (metadatas b) (ids b) store")
    show ?thesis
    proof (cases r)
      case None
      with extracted Inr w show ?thesis by (simp add: ingest_document_def)
    next
      case (Some e)
      with extracted Inr w show ?thesis by (simp add: ingest_document_def)
    qed
  qed
qed

theorem ingest_document_result_witness:
  "extract_text_from_file flaky_services ''uploads/1_notes.txt'' = Inr ''heat flows''
   \<and> build_batch (demo_metadata 1) ''uploads/1_notes.txt'' 0 (split_text_default ''heat flows'')
        batch_init
       = Inr \<lparr>documents = [''heat flows''], metadatas = [demo_metadata 1],
              ids = [''1_2_Physics_1_notes.txt_0'']\<rparr>
   \<and> ingest_document flaky_services [] ''uploads/1_notes.txt'' (demo_metadata 1)
       = (False, [\<lparr>chunk_id = ''1_2_Physics_1_notes.txt_0'', page_content = ''heat flows'',
                   metadata = demo_metadata 1\<rparr>])"
proof -
  let ?b = "\<lparr>documents = [''heat flows''], metadatas = [demo_metadata 1],
              ids = [''1_2_Physics_1_notes.txt_0'']\<rparr>"
  have x: "extract_text_from_file flaky_services ''uploads/1_notes.txt'' = Inr ''heat flows''"
    by (simp add: extract_text_from_file_def flaky_services_def demo_services_def py_endswith_def)
  have bb: "build_batch (demo_metadata 1) ''uploads/1_notes.txt'' 0 (split_text_default ''heat flows'')
      batch_init = Inr ?b"
    by (simp add: demo_split demo_doc_id batch_init_def)
  have w: "add_texts flaky_services (documents ?b) (metadatas ?b) (ids ?b) []
      = ([\<lparr>chunk_id = ''1_2_Physics_1_notes.txt_0'', page_content = ''heat flows'',
            metadata = demo_metadata 1\<rparr>], Some (LibraryError ''connection lost''))"
    by (simp add: flaky_services_def demo_services_def)
  from ingest_document_result [of flaky_services "[]" "''uploads/1_notes.txt''" "demo_metadata 1"]
  have "ingest_document flaky_services [] ''uploads/1_notes.txt'' (demo_metadata 1)
      = (snd (add_texts flaky_services (documents ?b) (metadatas ?b) (ids ?b) []) = None,
         fst (add_texts flaky_services (documents ?b) (metadatas ?b) (ids ?b) []))"
    using x bb by blast
  with x bb show ?thesis
    by (simp only: w) simp
qed

text \<open>
  C10, as amended. When the extracted text is empty or all whitespace, there is no
  chunk, the loop over the chunks does nothing (no metadata key is read), and
  \<^verbatim>\<open>ingest_document\<close> calls the batch write with three empty lists. It returns
  \<^verbatim>\<open>True\<close> exactly when that write raises nothing and \<^verbatim>\<open>False\<close> when it raises, and
  the store afterwards is the store as that write left it. With a store that accepts
  every batch and adds exactly the chunks it is given, the result is \<^verbatim>\<open>True\<close> and the
  store is unchanged: success is reported while nothing is stored.
\<close>

theorem blank_document_ingests_nothing:
  assumes "extract_text_from_file sv file_path = Inr text" and "list_all py_isspace text"
  shows "split_text_default text = []
     \<and> build_batch md file_path 0 (split_text_default text) batch_init = Inr batch_init
     \<and> ingest_document sv store file_path md
         = (snd (add_texts sv [] [] [] store) = None, fst (add_texts sv [] [] [] store))
     \<and> fst (ingest_document sv store file_path md)
         = (snd (add_texts sv [] [] [] store) = None)
     \<and> (add_texts sv = (\<lambda>ts ms is st. (upsert_chunks ts ms is st, None)) \<longrightarrow>
           ingest_document sv store file_path md = (True, store))"
proof -
  have blank: "split_text_default text = []"
    using assms(2) by (rule split_text_blank)
  have built: "build_batch md file_path 0 (split_text_default text) batch_init = Inr batch_init"
    by (simp add: blank)
  obtain store' r where w: "add_texts sv [] [] [] store = (store', r)"
    by (cases "add_texts sv [] [] [] store")
  have res: "ingest_document sv store file_path md
      = (snd (add_texts sv [] [] [] store) = None, fst (add_texts sv [] [] [] store))"
    by (cases r) (simp_all add: blank assms(1) w ingest_document_def batch_init_def)
  have "ingest_document sv store file_path md = (True, store)"
    if "add_texts sv = (\<lambda>ts ms is st. (upsert_chunks ts ms is st, None))"
    by (simp add: res that)
  with blank built res show ?thesis
    by simp
qed

theorem blank_document_witness:
  "extract_text_from_file demo_services ''uploads/1_blank.txt'' = Inr ''  \<newline>''
   \<and> list_all py_isspace ''  \<newline>''
   \<and> add_texts demo_services [] [] [] demo_store = (demo_store, None)
   \<and> ingest_document demo_services demo_store ''uploads/1_blank.txt'' [] = (True, demo_store)"
proof -
  have x: "extract_text_from_file demo_services ''uploads/1_blank.txt'' = Inr ''  \<newline>''"
    by (simp add: extract_text_from_file_def demo_services_def py_endswith_def)
  have w: "add_texts demo_services [] [] [] demo_store = (demo_store, None)"
    by (simp add: demo_services_def)
  from blank_document_ingests_nothing [OF x demo_blank, of "[]" demo_store]
  have "ingest_document demo_services demo_store ''uploads/1_blank.txt'' []
      = (snd (add_texts demo_services [] [] [] demo_store) = None,
         fst (add_texts demo_services [] [] [] demo_store))"
    by blast
  then have "ingest_document demo_services demo_store ''uploads/1_blank.txt'' [] = (True, demo_store)"
    by (simp only: w) simp
  with x demo_blank w show ?thesis by blast
qed

text \<open>
  The claim C10 as it is written fails with a store that refuses a write of no
  identifier, as the vector database's input validation does: the blank file is
  extracted, the empty batch is written, the write raises, and \<^verbatim>\<open>ingest_document\<close>
  returns \<^verbatim>\<open>False\<close>.
\<close>

theorem blank_document_counterexample:
  "extract_text_from_file strict_services ''uploads/1_blank.txt'' = Inr ''  \<newline>''
   \<and> list_all py_isspace ''  \<newline>''
   \<and> ingest_document strict_services demo_store ''uploads/1_blank.txt'' (demo_metadata 1)
       = (False, demo_store)"
proof -
  have x: "extract_text_from_file strict_services ''uploads/1_blank.txt'' = Inr ''  \<newline>''"
    by (simp add: extract_text_from_file_def strict_services_def demo_services_def py_endswith_def)
  have "split_text_default ''  \<newline>'' = []"
    using demo_blank by (rule split_text_blank)
  then have "ingest_document strict_services demo_store ''uploads/1_blank.txt'' (demo_metadata 1)
      = (False, demo_store)"
    by (simp add: ingest_document_def x batch_init_def)
       (simp add: strict_services_def demo_services_def)
  with x demo_blank show ?thesis by blast
qed

section \<open>Properties of the query engine\<close>

text \<open>
  C5. The filter that \<^verbatim>\<open>query\<close> builds always holds the user id. It holds the key
  \<^verbatim>\<open>semester\<close> exactly when a semester other than 0 is given, and the key \<^verbatim>\<open>subject\<close>
  exactly when a subject other than the empty string is given, each with the given
  value; it holds no other key. With the user id alone the filter restricts by owner
  only.
\<close>

theorem filter_contents:
  "map_of (build_filter user_id semester subject) ''user_id'' = Some (IntV user_id)
   \<and> map_of (build_filter user_id semester subject) ''semester''
       = (case semester of None \<Rightarrow> None | Some s \<Rightarrow> if s = 0 then None else Some (IntV s))
   \<and> map_of (build_filter user_id semester subject) ''subject''
       = (case subject of None \<Rightarrow> None | Some t \<Rightarrow> if t = [] then None else Some (StrV t))
   \<and> (''semester'' \<in> fst ` set (build_filter user_id semester subject))
       = (\<exists>s. semester = Some s \<and> s \<noteq> 0)
   \<and> (''subject'' \<in> fst ` set (build_filter user_id semester subject))
       = (\<exists>t. subject = Some t \<and> t \<noteq> [])
   \<and> fst ` set (build_filter user_id semester subject)
       \<subseteq> {''user_id'', ''semester'', ''subject''}
   \<and> build_filter user_id None None = [(''user_id'', IntV user_id)]
   \<and> build_filter user_id (Some 0) None = [(''user_id'', IntV user_id)]"
  by (cases semester; cases subject) (auto simp: build_filter_def)

text \<open>
  C8. \<^verbatim>\<open>query\<close> always returns a result. When similarity search raises, when the
  model raises on the prompt built from the retrieved chunks, or when a retrieved chunk
  has no title, the result is the fixed answer with no sources.
\<close>

theorem query_failure_gives_fallback:
  assumes "similarity_search sv store question (build_filter user_id semester subject) 4 = Inl e
     \<or> (\<exists>docs. similarity_search sv store question
              (build_filter user_id semester subject) 4 = Inr docs
          \<and> (generate sv (prompt_template
                (str_join ''\<newline>\<newline>'' (map page_content docs)) question) = Inl e
             \<or> doc_titles docs = Inl e))"
  shows "query sv store question user_id semester subject
     = \<lparr>answer = ''Sorry, I encountered an error processing your request.'', sources = []\<rparr>"
  using assms
  by (auto simp: query_def qa_chain_def split: sum.splits)

theorem query_failure_witness:
  "generate demo_services (prompt_template (str_join ''\<newline>\<newline>'' [''heat flows''])
      ''a question of more than twenty characters'') = Inl (LibraryError ''model unavailable'')
   \<and> query demo_services demo_store ''a question of more than twenty characters'' 1 None None
     = \<lparr>answer = ''Sorry, I encountered an error processing your request.'', sources = []\<rparr>"
proof -
  let ?q = "''a question of more than twenty characters''"
  have g: "generate demo_services (prompt_template (str_join ''\<newline>\<newline>'' [''heat flows'']) ?q)
      = Inl (LibraryError ''model unavailable'')"
    by (simp add: demo_services_def prompt_template_def)
  have "similarity_search demo_services demo_store ?q (build_filter 1 None None) 4
        = Inl (LibraryError ''model unavailable'')
     \<or> (\<exists>docs. similarity_search demo_services demo_store ?q (build_filter 1 None None) 4 = Inr docs
          \<and> (generate demo_services (prompt_template
                (str_join ''\<newline>\<newline>'' (map page_content docs)) ?q)
                = Inl (LibraryError ''model unavailable'')
             \<or> doc_titles docs = Inl (LibraryError ''model unavailable'')))"
    using g by (simp add: demo_search)
  from query_failure_gives_fallback [OF this] g show ?thesis by simp
qed

text \<open>
  C1. Whatever the store holds and whatever the question and the optional semester and
  subject are, every chunk that \<^verbatim>\<open>query\<close> retrieves is a stored chunk whose metadata
  user id is the requesting user id. Hence, in a store where the metadata user id of every
  chunk is the owner the chunk was ingested for, every retrieved chunk belongs to the
  requesting owner, and every returned source is the title of one of that owner's chunks.
\<close>

theorem query_stays_within_owner:
  assumes "\<forall>c\<in>set store. map_of (metadata c) ''user_id'' = Some (IntV (owner_of c))"
  shows "(\<forall>docs. similarity_search sv store question
              (build_filter user_id semester subject) 4 = Inr docs \<longrightarrow>
            (\<forall>d\<in>set docs. d \<in> set store
               \<and> map_of (metadata d) ''user_id'' = Some (IntV user_id)
               \<and> owner_of d = user_id))
     \<and> (\<forall>t\<in>set (sources (query sv store question user_id semester subject)).
            \<exists>c\<in>set store. owner_of c = user_id
               \<and> map_of (metadata c) ''user_id'' = Some (IntV user_id)
               \<and> map_of (metadata c) ''title'' = Some t)"
proof -
  have retrieved: "d \<in> set store \<and> map_of (metadata d) ''user_id'' = Some (IntV user_id)
      \<and> owner_of d = user_id"
    if "similarity_search sv store question (build_filter user_id semester subject) 4 = Inr docs"
      and "d \<in> set docs" for docs d
  proof -
    from similarity_search_sound [OF that] have mem: "d \<in> set store"
      and m: "metadata_matches (build_filter user_id semester subject) (metadata d)"
      by simp_all
    from m have u: "map_of (metadata d) ''user_id'' = Some (IntV user_id)"
      by (rule build_filter_user_id)
    from assms mem have "map_of (metadata d) ''user_id'' = Some (IntV (owner_of d))"
      by blast
    with u have "owner_of d = user_id" by simp
    with mem u show ?thesis by simp
  qed
  have titles: "\<exists>c\<in>set store. owner_of c = user_id
      \<and> map_of (metadata c) ''user_id'' = Some (IntV user_id)
      \<and> map_of (metadata c) ''title'' = Some t"
    if "t \<in> set (sources (query sv store question user_id semester subject))" for t
  proof -
    from query_sources_from_docs [OF that] obtain docs d where
      s: "similarity_search sv store question (build_filter user_id semester subject) 4 = Inr docs"
      and d: "d \<in> set docs" and t: "map_of (metadata d) ''title'' = Some t"
      by blast
    from retrieved [OF s d] t show ?thesis by blast
  qed
  from retrieved titles show ?thesis by blast
qed

theorem query_stays_within_owner_witness:
  "list_all (\<lambda>c. map_of (metadata c) ''user_id''
       = Some (IntV (if chunk_id c = ''1_2_Physics_1_notes.txt_0'' then 1 else 2))) demo_store
   \<and> sources (query demo_services demo_store ''q'' 1 None None) = [StrV ''notes.txt'']
   \<and> list_ex (\<lambda>c. chunk_id c = ''1_2_Physics_1_notes.txt_0''
         \<and> map_of (metadata c) ''title'' = Some (StrV ''notes.txt'')) demo_store"
proof -
  let ?owner = "\<lambda>c :: stored_chunk. if chunk_id c = ''1_2_Physics_1_notes.txt_0'' then 1 else (2 :: int)"
  have inv: "\<forall>c\<in>set demo_store. map_of (metadata c) ''user_id'' = Some (IntV (?owner c))"
    by (simp add: demo_store_def demo_metadata_def)
  have src: "sources (query demo_services demo_store ''q'' 1 None None) = [StrV ''notes.txt'']"
    by (simp add: query_def qa_chain_def demo_search)
       (simp add: demo_services_def prompt_template_def demo_metadata_def)
  from query_stays_within_owner [OF inv, of demo_services "''q''" 1 None None]
  have "\<forall>t\<in>set (sources (query demo_services demo_store ''q'' 1 None None)).
      \<exists>c\<in>set demo_store. ?owner c = 1
         \<and> map_of (metadata c) ''user_id'' = Some (IntV 1)
         \<and> map_of (metadata c) ''title'' = Some t"
    by blast
  then have "\<exists>c\<in>set demo_store. ?owner c = 1
         \<and> map_of (metadata c) ''user_id'' = Some (IntV 1)
         \<and> map_of (metadata c) ''title'' = Some (StrV ''notes.txt'')"
    unfolding src by simp
  then obtain c where c: "c \<in> set demo_store" and o: "?owner c = 1"
    and t: "map_of (metadata c) ''title'' = Some (StrV ''notes.txt'')"
    by blast
  from o have "chunk_id c = ''1_2_Physics_1_notes.txt_0''"
    by (simp split: if_splits)
  with c t have ex: "list_ex (\<lambda>c. chunk_id c = ''1_2_Physics_1_notes.txt_0''
         \<and> map_of (metadata c) ''title'' = Some (StrV ''notes.txt'')) demo_store"
    unfolding list_ex_iff by blast
  from inv have "list_all (\<lambda>c. map_of (metadata c) ''user_id''
       = Some (IntV (?owner c))) demo_store"
    unfolding list_all_iff .
  with src ex show ?thesis by blast
qed

end
